theory Spec2Isabelle
  imports Complex_Main "HOL-Library.Sublist"
begin

section \<open>Python values\<close>

text \<open>
  A Python \<open>str\<close> is a sequence of Unicode code points; it is modelled as a list of
  natural numbers. \<open>lit\<close> embeds an ASCII literal of the source.  Python's \<open>int\<close> is
  unbounded and is modelled by \<open>int\<close>.  Exceptions are values of \<open>exn\<close>; a computation
  that may raise returns \<open>exn + 'a\<close> with \<open>Inl\<close> for the exception.
\<close>

type_synonym str = "nat list"

definition lit :: "string \<Rightarrow> str" where
  "lit s = map of_char s"

datatype exn = OracleError | OSError | IndexError | ValueError | ZeroDivisionError

subsection \<open>\<open>str(n)\<close> and \<open>int(s)\<close>\<close>

fun digits :: "nat \<Rightarrow> str" where
  "digits n = (if n < 10 then [48 + n] else digits (n div 10) @ [48 + n mod 10])"

declare digits.simps [simp del]

definition str_int :: "int \<Rightarrow> str" where
  \<comment> \<open>\<open>f"{n}"\<close> for an integer: a minus sign (code point 45) and the decimal digits\<close>
  "str_int n = (if n < 0 then 45 # digits (nat (- n)) else digits (nat n))"

definition is_digit :: "nat \<Rightarrow> bool" where
  "is_digit c \<longleftrightarrow> 48 \<le> c \<and> c \<le> 57"

definition digits_val :: "str \<Rightarrow> nat" where
  "digits_val ds = foldl (\<lambda>a d. 10 * a + (d - 48)) 0 ds"

definition py_int :: "str \<Rightarrow> exn + int" where
  \<comment> \<open>\<open>int(s)\<close> on an optionally signed run of ASCII digits, the only form the file names
      written by \<open>save_round_result\<close> contain.  Python's \<open>int\<close> also accepts surrounding
      white space and non-ASCII digits; those inputs are outside this model and are
      reported as \<open>ValueError\<close>.\<close>
  "py_int s =
     (case s of
        [] \<Rightarrow> Inl ValueError
      | c # cs \<Rightarrow>
          if c = 45 \<or> c = 43 then
            (if cs \<noteq> [] \<and> list_all is_digit cs
             then Inr ((if c = 45 then - 1 else 1) * int (digits_val cs))
             else Inl ValueError)
          else if list_all is_digit s then Inr (int (digits_val s))
          else Inl ValueError)"

subsection \<open>Dictionaries\<close>

text \<open>
  A Python \<open>dict\<close> iterates in insertion order, and the source depends on that order
  (winner scan, \<open>max\<close> over the frontrunners).  A dictionary is therefore an association
  list with distinct keys: \<open>dict_set\<close> overwrites in place or appends at the end.
\<close>

fun dict_get :: "('k \<times> 'v) list \<Rightarrow> 'k \<Rightarrow> 'v \<Rightarrow> 'v" where
  "dict_get [] k d = d"
| "dict_get ((k', v) # m) k d = (if k' = k then v else dict_get m k d)"

fun dict_set :: "'k \<Rightarrow> 'v \<Rightarrow> ('k \<times> 'v) list \<Rightarrow> ('k \<times> 'v) list" where
  "dict_set k v [] = [(k, v)]"
| "dict_set k v ((k', v') # m) = (if k' = k then (k, v) # m else (k', v') # dict_set k v m)"

subsection \<open>\<open>max(xs, key=f)\<close>\<close>

text \<open>
  Python's \<open>max\<close> evaluates the key of every item in order, keeps the first item whose key
  is strictly greater than all earlier ones, and raises \<open>ValueError\<close> on an empty sequence.
\<close>

fun py_max_from :: "('a \<Rightarrow> exn + 'k::linorder) \<Rightarrow> 'a \<Rightarrow> 'k \<Rightarrow> 'a list \<Rightarrow> exn + 'a" where
  "py_max_from key best bk [] = Inr best"
| "py_max_from key best bk (x # xs) =
     (case key x of
        Inl e \<Rightarrow> Inl e
      | Inr k \<Rightarrow> if k > bk then py_max_from key x k xs else py_max_from key best bk xs)"

definition py_max :: "('a \<Rightarrow> exn + 'k::linorder) \<Rightarrow> 'a list \<Rightarrow> exn + 'a" where
  "py_max key xs =
     (case xs of
        [] \<Rightarrow> Inl ValueError
      | x # xs' \<Rightarrow> (case key x of Inl e \<Rightarrow> Inl e | Inr k \<Rightarrow> py_max_from key x k xs'))"

section \<open>Round ledger (\<open>round_results.py\<close>)\<close>

record RoundResult =
  round_number :: int
  votes :: "(str \<times> int) list"
  winner :: "str option"

text \<open>
  \<open>RoundResults\<close> keeps one JSON file per round in \<open>results_dir\<close>.  The directory is
  modelled by its listing: file name and stored outcome, in the order \<open>glob\<close> yields them.
  \<open>json.dump\<close> of \<open>model_dump()\<close> followed by \<open>json.load\<close> and \<open>RoundResult(**data)\<close>
  gives back the same three fields, so a file's content is the outcome itself.
\<close>

type_synonym results_dir = "(str \<times> RoundResult) list"

definition result_file_name :: "int \<Rightarrow> str" where
  \<comment> \<open>\<open>f"round_{round_number}_results.json"\<close>\<close>
  "result_file_name n = lit ''round_'' @ str_int n @ lit ''_results.json''"

definition save_round_result :: "RoundResult \<Rightarrow> results_dir \<Rightarrow> results_dir" where
  \<comment> \<open>\<open>open(file_path, 'w')\<close> replaces an existing file and creates a missing one\<close>
  "save_round_result round_result d =
     dict_set (result_file_name (RoundResult.round_number round_result)) round_result d"

definition get_round_result :: "int \<Rightarrow> results_dir \<Rightarrow> RoundResult option" where
  \<comment> \<open>\<open>None\<close> when \<open>file_path.exists()\<close> is false\<close>
  "get_round_result n d = map_of d (result_file_name n)"

definition glob_match :: "str \<Rightarrow> bool" where
  \<comment> \<open>the pattern \<open>round_*_results.json\<close>\<close>
  "glob_match f \<longleftrightarrow>
     prefix (lit ''round_'') f \<and> suffix (lit ''_results.json'') f \<and> 19 \<le> length f"

definition stem :: "str \<Rightarrow> str" where
  \<comment> \<open>\<open>Path.stem\<close>: the name without its last suffix (46 is the dot); a name with no dot,
      or whose only dot is the first character, is its own stem\<close>
  "stem f =
     (let r = dropWhile (\<lambda>c. c \<noteq> 46) (rev f)
      in if length r \<le> 1 then f else rev (tl r))"

fun split_on :: "nat \<Rightarrow> str \<Rightarrow> str list" where
  \<comment> \<open>\<open>s.split(sep)\<close> for a one-character separator: empty pieces are kept\<close>
  "split_on sep [] = [[]]"
| "split_on sep (c # cs) =
     (if c = sep then [] # split_on sep cs
      else (case split_on sep cs of [] \<Rightarrow> [[c]] | w # ws \<Rightarrow> (c # w) # ws))"

definition round_key :: "str \<Rightarrow> exn + int" where
  \<comment> \<open>\<open>lambda p: int(p.stem.split('_')[1])\<close>; 95 is the underscore\<close>
  "round_key f =
     (let parts = split_on 95 (stem f)
      in if length parts \<le> 1 then Inl IndexError else py_int (parts ! 1))"

definition get_latest_round_result :: "results_dir \<Rightarrow> exn + RoundResult option" where
  "get_latest_round_result d =
     (let result_files = filter (\<lambda>(f, rr). glob_match f) d
      in if result_files = [] then Inr None
         else (case py_max (\<lambda>(f, rr). round_key f) result_files of
                 Inl e \<Rightarrow> Inl e
               | Inr (f, rr) \<Rightarrow> Inr (Some rr)))"

definition saved_only :: "results_dir \<Rightarrow> bool" where
  \<comment> \<open>every file in the directory was written by \<open>save_round_result\<close>\<close>
  "saved_only d \<longleftrightarrow>
     list_all (\<lambda>(f, rr). f = result_file_name (RoundResult.round_number rr)) d"

section \<open>Concrete inputs\<close>

definition outcome1 :: RoundResult where
  "outcome1 = \<lparr>RoundResult.round_number = 1,
                votes = [(lit ''A'', 1), (lit ''B'', 2)], winner = None\<rparr>"

definition outcome3 :: RoundResult where
  "outcome3 = \<lparr>RoundResult.round_number = 3,
                votes = [(lit ''B'', 3)], winner = Some (lit ''B'')\<rparr>"

definition ledger_1_3 :: results_dir where
  \<comment> \<open>round 3 was written before round 1, round 2 never\<close>
  "ledger_1_3 = save_round_result outcome1 (save_round_result outcome3 [])"

section \<open>Properties of the Python primitives and of the ledger\<close>

lemma digits_all_digit: "list_all is_digit (digits n)"
proof (induction n rule: digits.induct)
  case (1 n)
  show ?case
  proof (cases "n < 10")
    case True
    then show ?thesis by (subst digits.simps) (simp add: is_digit_def)
  next
    case False
    have "n mod 10 < 10" by simp
    then have "is_digit (48 + n mod 10)" unfolding is_digit_def by linarith
    with 1 False show ?thesis by (subst digits.simps) simp
  qed
qed

lemma digits_nonempty: "digits n \<noteq> []"
  by (subst digits.simps) simp

lemma digits_val_snoc: "digits_val (ds @ [d]) = 10 * digits_val ds + (d - 48)"
  by (simp add: digits_val_def)

lemma digits_val_digits: "digits_val (digits n) = n"
proof (induction n rule: digits.induct)
  case (1 n)
  show ?case
  proof (cases "n < 10")
    case True
    then show ?thesis by (subst digits.simps) (simp add: digits_val_def)
  next
    case False
    with 1 have "digits_val (digits (n div 10)) = n div 10" by simp
    with False show ?thesis by (subst digits.simps) (simp add: digits_val_snoc)
  qed
qed

lemma digits_hd_digit: "is_digit (hd (digits n))"
  using digits_all_digit [of n] digits_nonempty [of n]
  by (cases "digits n") simp_all

lemma py_int_str_int: "py_int (str_int n) = Inr n"
proof (cases "n < 0")
  case True
  then show ?thesis
    by (simp add: py_int_def str_int_def digits_nonempty digits_all_digit digits_val_digits)
next
  case False
  obtain c cs where d: "digits (nat n) = c # cs"
    using digits_nonempty [of "nat n"] by (cases "digits (nat n)") auto
  have "is_digit c" using digits_hd_digit [of "nat n"] d by simp
  then have c: "c \<noteq> 45" "c \<noteq> 43" by (auto simp: is_digit_def)
  have "list_all is_digit (c # cs)" using digits_all_digit [of "nat n"] d by simp
  moreover have "digits_val (c # cs) = nat n" using digits_val_digits [of "nat n"] d by simp
  ultimately show ?thesis using False c d
    by (simp add: py_int_def str_int_def)
qed

lemma str_int_inj: "str_int a = str_int b \<Longrightarrow> a = b"
  by (metis py_int_str_int sum.inject(2))

lemma str_int_chars: "c \<in> set (str_int n) \<Longrightarrow> c = 45 \<or> is_digit c"
  using digits_all_digit by (auto simp: str_int_def list_all_iff split: if_splits)

lemma str_int_no_underscore: "95 \<notin> set (str_int n)"
  using str_int_chars [of 95 n] by (auto simp: is_digit_def)

lemma str_int_no_dot: "46 \<notin> set (str_int n)"
  using str_int_chars [of 46 n] by (auto simp: is_digit_def)

lemma result_file_name_inj: "result_file_name a = result_file_name b \<Longrightarrow> a = b"
  by (simp add: result_file_name_def str_int_inj)

lemma lit_round: "lit ''round_'' = [114, 111, 117, 110, 100, 95]"
  by (simp add: lit_def)

lemma lit_results_json:
  "lit ''_results.json'' = [95, 114, 101, 115, 117, 108, 116, 115, 46, 106, 115, 111, 110]"
  by (simp add: lit_def)

lemma glob_match_result_file_name: "glob_match (result_file_name n)"
  by (simp add: glob_match_def result_file_name_def lit_round lit_results_json suffix_def)

lemma stem_result_file_name:
  "stem (result_file_name n) = lit ''round_'' @ str_int n @ [95, 114, 101, 115, 117, 108, 116, 115]"
  by (simp add: stem_def result_file_name_def lit_round lit_results_json)

lemma split_on_no_sep: "sep \<notin> set s \<Longrightarrow> split_on sep s = [s]"
  by (induction s) auto

lemma split_on_append: "sep \<notin> set a \<Longrightarrow> split_on sep (a @ sep # b) = a # split_on sep b"
  by (induction a) auto

lemma round_key_result_file_name: "round_key (result_file_name n) = Inr n"
proof -
  have "split_on 95 (stem (result_file_name n)) =
        [114, 111, 117, 110, 100] # split_on 95 (str_int n @ 95 # [114, 101, 115, 117, 108, 116, 115])"
    by (simp add: stem_result_file_name lit_round)
  also have "\<dots> = [[114, 111, 117, 110, 100], str_int n, [114, 101, 115, 117, 108, 116, 115]]"
    using split_on_append [OF str_int_no_underscore, of n "[114, 101, 115, 117, 108, 116, 115]"]
    by simp
  finally show ?thesis by (simp add: round_key_def py_int_str_int)
qed

lemma py_max_from_first_max:
  assumes "\<forall>x \<in> set xs. key x = Inr (k x)"
  shows "\<exists>m pre post. py_max_from key best (k best) xs = Inr m \<and> best # xs = pre @ m # post
           \<and> (\<forall>y \<in> set pre. k y < k m) \<and> (\<forall>y \<in> set post. k y \<le> k m)"
  using assms
proof (induction xs arbitrary: best)
  case Nil
  have "[best] = [] @ best # []" by simp
  then show ?case by fastforce
next
  case (Cons x xs)
  then have kx: "key x = Inr (k x)" and rest: "\<forall>y \<in> set xs. key y = Inr (k y)" by simp_all
  show ?case
  proof (cases "k best < k x")
    case True
    from Cons.IH [OF rest, of x] obtain m pre post where
      m: "py_max_from key x (k x) xs = Inr m" "x # xs = pre @ m # post"
         "\<forall>y \<in> set pre. k y < k m" "\<forall>y \<in> set post. k y \<le> k m" by blast
    have "k x \<le> k m" using m(2,3) by (cases pre) auto
    with True have "k best < k m" by simp
    with m(3) have "\<forall>y \<in> set (best # pre). k y < k m" by simp
    moreover have "best # x # xs = (best # pre) @ m # post" using m(2) by simp
    moreover have "py_max_from key best (k best) (x # xs) = Inr m" using True kx m(1) by simp
    ultimately show ?thesis using m(4) by blast
  next
    case False
    from Cons.IH [OF rest, of best] obtain m pre post where
      m: "py_max_from key best (k best) xs = Inr m" "best # xs = pre @ m # post"
         "\<forall>y \<in> set pre. k y < k m" "\<forall>y \<in> set post. k y \<le> k m" by blast
    have run: "py_max_from key best (k best) (x # xs) = Inr m" using False kx m(1) by simp
    show ?thesis
    proof (cases pre)
      case Nil
      with m(2) have "m = best" "post = xs" by simp_all
      with False m(4) have "best # x # xs = [] @ m # (x # xs)" "\<forall>y \<in> set (x # xs). k y \<le> k m"
        by auto
      with run show ?thesis by (metis empty_iff list.set(1))
    next
      case (Cons b pre0)
      with m(2) have b: "b = best" "xs = pre0 @ m # post" by simp_all
      with m(3) Cons have "k best < k m" by simp
      with False have "k x < k m" by simp
      with m(3) Cons b have "\<forall>y \<in> set (best # x # pre0). k y < k m" by simp
      moreover have "best # x # xs = (best # x # pre0) @ m # post" using b by simp
      ultimately show ?thesis using run m(4) by blast
    qed
  qed
qed

lemma py_max_first_max:
  assumes "xs \<noteq> []" "\<forall>x \<in> set xs. key x = Inr (k x)"
  shows "\<exists>m pre post. py_max key xs = Inr m \<and> xs = pre @ m # post
           \<and> (\<forall>y \<in> set pre. k y < k m) \<and> (\<forall>y \<in> set post. k y \<le> k m)"
proof -
  from assms(1) obtain x xs' where xs: "xs = x # xs'" by (cases xs) auto
  with assms(2) have kx: "key x = Inr (k x)" and rest: "\<forall>y \<in> set xs'. key y = Inr (k y)"
    by simp_all
  from py_max_from_first_max [OF rest, of x] kx xs show ?thesis
    by (simp add: py_max_def)
qed

lemma py_max_greatest:
  assumes "xs \<noteq> []" "\<forall>x \<in> set xs. key x = Inr (k x)"
  shows "\<exists>m. py_max key xs = Inr m \<and> m \<in> set xs \<and> (\<forall>y \<in> set xs. k y \<le> k m)"
proof -
  from py_max_first_max [OF assms] obtain m pre post where
    m: "py_max key xs = Inr m" "xs = pre @ m # post"
       "\<forall>y \<in> set pre. k y < k m" "\<forall>y \<in> set post. k y \<le> k m" by blast
  have "\<forall>y \<in> set xs. k y \<le> k m"
  proof
    fix y assume "y \<in> set xs"
    with m(2) have "y \<in> set pre \<or> y = m \<or> y \<in> set post" by auto
    with m(3,4) show "k y \<le> k m" by (auto simp: less_imp_le)
  qed
  moreover have "m \<in> set xs" using m(2) by simp
  ultimately show ?thesis using m(1) by blast
qed

lemma map_of_dict_set: "map_of (dict_set k v m) = (map_of m)(k \<mapsto> v)"
  by (induction m) (auto simp: fun_eq_iff)

lemma get_after_save:
  "get_round_result (RoundResult.round_number r) (save_round_result r d) = Some r"
  by (simp add: get_round_result_def save_round_result_def map_of_dict_set)

lemma get_other_after_save:
  "k \<noteq> RoundResult.round_number r \<Longrightarrow>
   get_round_result k (save_round_result r d) = get_round_result k d"
  by (auto simp: get_round_result_def save_round_result_def map_of_dict_set
           dest: result_file_name_inj)

lemma set_dict_set: "set (dict_set k v m) \<subseteq> insert (k, v) (set m)"
  by (induction m) (auto split: if_splits)

lemma map_fst_dict_set:
  "map fst (dict_set k v m) = (if k \<in> set (map fst m) then map fst m else map fst m @ [k])"
  by (induction m) force+

lemma keys_dict_set: "set (map fst (dict_set k v m)) = insert k (set (map fst m))"
  by (auto simp: map_fst_dict_set)

lemma distinct_dict_set: "distinct (map fst m) \<Longrightarrow> distinct (map fst (dict_set k v m))"
  by (simp add: map_fst_dict_set)

lemma saved_only_save: "saved_only d \<Longrightarrow> saved_only (save_round_result r d)"
  using set_dict_set [of "result_file_name (RoundResult.round_number r)" r d]
  by (auto simp: saved_only_def save_round_result_def list_all_iff)

lemma saved_only_foldl:
  "saved_only d \<Longrightarrow> saved_only (foldl (\<lambda>d r. save_round_result r d) d rs)"
  by (induction rs arbitrary: d) (simp_all add: saved_only_save)

lemma get_foldl_save_other:
  "k \<notin> RoundResult.round_number ` set rs \<Longrightarrow>
   get_round_result k (foldl (\<lambda>d r. save_round_result r d) d rs) = get_round_result k d"
  by (induction rs arbitrary: d) (simp_all add: get_other_after_save)

lemma get_latest_saved_only:
  assumes "saved_only d" "d \<noteq> []"
  shows "\<exists>rr. get_latest_round_result d = Inr (Some rr) \<and> rr \<in> snd ` set d
          \<and> (\<forall>r' \<in> snd ` set d. RoundResult.round_number r' \<le> RoundResult.round_number rr)"
proof -
  have names: "\<forall>p \<in> set d. fst p = result_file_name (RoundResult.round_number (snd p))"
    using assms(1) by (auto simp: saved_only_def list_all_iff)
  then have "\<forall>p \<in> set d. glob_match (fst p)"
    by (simp add: glob_match_result_file_name)
  then have filt: "filter (\<lambda>(f, rr). glob_match f) d = d"
    by (auto simp: filter_id_conv)
  have keys: "\<forall>p \<in> set d. (\<lambda>(f, rr). round_key f) p = Inr (RoundResult.round_number (snd p))"
    using names by (auto simp: round_key_result_file_name)
  from py_max_greatest [OF assms(2) keys] obtain m where
    m: "py_max (\<lambda>(f, rr). round_key f) d = Inr m" "m \<in> set d"
       "\<forall>y \<in> set d. RoundResult.round_number (snd y) \<le> RoundResult.round_number (snd m)"
    by blast
  have "get_latest_round_result d = Inr (Some (snd m))"
    using assms(2) m(1) by (simp add: get_latest_round_result_def filt split: prod.splits)
  with m(2,3) show ?thesis by auto
qed

section \<open>Round ledger claims\<close>

text \<open>
  C7. In a results directory all of whose files were written by \<open>save_round_result\<close>,
  \<open>get_latest_round_result\<close> returns \<open>None\<close> when the directory is empty, and otherwise
  a stored outcome whose round number is the greatest of all stored round numbers; the
  stored numbers need not be contiguous.
\<close>

theorem get_latest_is_numeric_max:
  assumes "saved_only d"
  shows "(d = [] \<longrightarrow> get_latest_round_result d = Inr None) \<and>
         (d \<noteq> [] \<longrightarrow>
            (\<exists>rr. get_latest_round_result d = Inr (Some rr) \<and> rr \<in> snd ` set d \<and>
               (\<forall>r' \<in> snd ` set d.
                  RoundResult.round_number r' \<le> RoundResult.round_number rr)))"
proof (cases "d = []")
  case True
  then show ?thesis by (simp add: get_latest_round_result_def)
next
  case False
  with get_latest_saved_only [OF assms] show ?thesis by simp
qed

theorem get_latest_is_numeric_max_witness:
  "saved_only ledger_1_3 \<and> ledger_1_3 \<noteq> [] \<and>
   get_round_result 2 ledger_1_3 = None \<and>
   get_latest_round_result ledger_1_3 = Inr (Some outcome3) \<and>
   (\<exists>rr. get_latest_round_result ledger_1_3 = Inr (Some rr) \<and> rr \<in> snd ` set ledger_1_3 \<and>
      (\<forall>r' \<in> snd ` set ledger_1_3.
         RoundResult.round_number r' \<le> RoundResult.round_number rr))"
proof -
  have s: "saved_only ledger_1_3" by code_simp
  have n: "ledger_1_3 \<noteq> []" by code_simp
  have g: "get_round_result 2 ledger_1_3 = None" by code_simp
  have l: "get_latest_round_result ledger_1_3 = Inr (Some outcome3)" by code_simp
  from get_latest_is_numeric_max [OF s] n s g l show ?thesis by simp
qed

text \<open>
  C10. After \<open>save_round_result r\<close>, \<open>get_round_result\<close> of \<open>r\<close>'s round number returns
  \<open>r\<close> itself; the answer for every other round number is what it was before the save;
  and in a directory built from the empty one by saving the outcomes \<open>rs\<close>, a round number
  that none of them carries has no outcome.
\<close>

theorem save_then_get:
  "get_round_result (RoundResult.round_number r) (save_round_result r d) = Some r \<and>
   (k \<noteq> RoundResult.round_number r \<longrightarrow>
      get_round_result k (save_round_result r d) = get_round_result k d) \<and>
   (k \<notin> RoundResult.round_number ` set rs \<longrightarrow>
      get_round_result k (foldl (\<lambda>d r. save_round_result r d) [] rs) = None)"
proof (intro conjI impI)
  show "get_round_result (RoundResult.round_number r) (save_round_result r d) = Some r"
    by (rule get_after_save)
next
  assume "k \<noteq> RoundResult.round_number r"
  then show "get_round_result k (save_round_result r d) = get_round_result k d"
    by (rule get_other_after_save)
next
  assume "k \<notin> RoundResult.round_number ` set rs"
  then have "get_round_result k (foldl (\<lambda>d r. save_round_result r d) [] rs)
             = get_round_result k []"
    by (rule get_foldl_save_other)
  then show "get_round_result k (foldl (\<lambda>d r. save_round_result r d) [] rs) = None"
    by (simp add: get_round_result_def)
qed

theorem save_then_get_witness:
  "get_round_result 1 (save_round_result outcome1 (save_round_result outcome3 [])) = Some outcome1 \<and>
   get_round_result 3 (save_round_result outcome1 (save_round_result outcome3 []))
     = get_round_result 3 (save_round_result outcome3 []) \<and>
   get_round_result 3 (save_round_result outcome3 []) = Some outcome3 \<and>
   get_round_result 2 (foldl (\<lambda>d r. save_round_result r d) [] [outcome3, outcome1]) = None"
proof -
  have r1: "RoundResult.round_number outcome1 = 1" by (simp add: outcome1_def)
  have r3: "RoundResult.round_number outcome3 = 3" by (simp add: outcome3_def)
  have a: "(3::int) \<noteq> RoundResult.round_number outcome1" by (simp add: r1)
  have b: "(2::int) \<notin> RoundResult.round_number ` set [outcome3, outcome1]" by (simp add: r1 r3)
  from save_then_get [of outcome1 "save_round_result outcome3 []" 3 "[]"]
       save_then_get [of outcome3 "[]" 2 "[outcome3, outcome1]"] a b r1 r3
  show ?thesis by simp
qed

end
